theory Spec2Isabelle
  imports Complex_Main "HOL-Library.Log_Nat" "HOL-Library.Word"
begin

section \<open>Python values: exceptions, dictionaries, the random generator\<close>

text \<open>
  The two scripts \<^verbatim>\<open>compose_images.py\<close> and \<^verbatim>\<open>crop_objects.py\<close> are embedded function by
  function.  Python's unbounded integers are \<^typ>\<open>int\<close>; \<^verbatim>\<open>//\<close> is floor division, which for
  the divisor 2 is \<^term>\<open>(div)\<close> on \<^typ>\<open>int\<close>.  A function that can raise returns
  \<open>error + 'a\<close>, with \<open>Inl\<close> for the exception.
\<close>

datatype error = KeyError | ValueError | ZeroDivisionError | IndexError

text \<open>
  Statements run in sequence: the first exception ends the function, otherwise the value
  is bound and the rest runs.
\<close>

definition bind_result :: "error + 'a \<Rightarrow> ('a \<Rightarrow> error + 'b) \<Rightarrow> error + 'b" where
  "bind_result r f = (case r of Inl e \<Rightarrow> Inl e | Inr v \<Rightarrow> f v)"

text \<open>\<^verbatim>\<open>config["key"]\<close>: the configuration is a dictionary, a missing key raises.\<close>

definition getitem :: "(string \<rightharpoonup> int) \<Rightarrow> string \<Rightarrow> error + int" where
  "getitem config key = (case config key of None \<Rightarrow> Inl KeyError | Some v \<Rightarrow> Inr v)"

text \<open>
  \<^verbatim>\<open>random.randint(a, b)\<close> is \<^verbatim>\<open>a + _randbelow(b - a + 1)\<close> and raises \<^verbatim>\<open>ValueError\<close> on
  an empty range.  The generator is an explicit argument: \<open>draw\<close> is the number it delivers
  next, reduced into the requested width.  Every integer of \<open>[a, b]\<close> is the result for the
  draw \<open>nat (v - a)\<close>, so a statement for all draws is a statement for all outcomes.
\<close>

definition randint :: "int \<Rightarrow> int \<Rightarrow> nat \<Rightarrow> error + int" where
  "randint a b draw =
     (if b - a + 1 > 0 then Inr (a + int (draw mod nat (b - a + 1))) else Inl ValueError)"

section \<open>Python floats\<close>

text \<open>
  A float is the rational number it denotes.  \<open>fl\<close> rounds a rational to the nearest
  number with a 53 bit significand, ties to the even significand, as every binary64
  operation of CPython does with its exact result (\<^verbatim>\<open>int / int\<close> is correctly rounded as
  well).  The exponent is not bounded: overflow and subnormal numbers, which need
  magnitudes beyond \<open>2 ^ 1023\<close> or below \<open>2 ^ -1022\<close>, are outside the model.
\<close>

definition round_half_even :: "rat \<Rightarrow> int" where
  "round_half_even s =
     (let n = \<lfloor>s\<rfloor>; d = s - of_int n
      in if d < 1 / 2 then n
         else if 1 / 2 < d then n + 1
         else if even n then n else n + 1)"

text \<open>\<open>ilog2 x\<close> is the exponent \<open>e\<close> with \<open>2 ^ e \<le> x < 2 ^ (e + 1)\<close>, for positive \<open>x\<close>.\<close>

definition ilog2 :: "rat \<Rightarrow> int" where
  "ilog2 x =
     (let (p, q) = quotient_of x; k = bitlen p - bitlen q
      in if 2 powi k \<le> x then k else k - 1)"

definition fl :: "rat \<Rightarrow> rat" where
  "fl x =
     (if x = 0 then 0
      else let e = ilog2 \<bar>x\<bar> - 52
           in of_int (round_half_even (x / 2 powi e)) * 2 powi e)"

text \<open>\<^verbatim>\<open>a / b\<close> on two integers, and on an integer and a float.\<close>

definition truediv :: "int \<Rightarrow> int \<Rightarrow> error + rat" where
  "truediv a b = (if b = 0 then Inl ZeroDivisionError else Inr (fl (of_int a / of_int b)))"

definition int_truediv_float :: "int \<Rightarrow> rat \<Rightarrow> error + rat" where
  "int_truediv_float a y =
     (if y = 0 then Inl ZeroDivisionError else Inr (fl (fl (of_int a) / y)))"

text \<open>\<^verbatim>\<open>a * y\<close> on an integer and a float: the integer is converted first.\<close>

definition int_mul_float :: "int \<Rightarrow> rat \<Rightarrow> rat" where
  "int_mul_float a y = fl (fl (of_int a) * y)"

definition float_sub :: "rat \<Rightarrow> rat \<Rightarrow> rat" where
  "float_sub x y = fl (x - y)"

text \<open>\<^verbatim>\<open>int(x)\<close> on a float truncates towards zero.\<close>

definition py_int :: "rat \<Rightarrow> int" where
  "py_int x = (if 0 \<le> x then \<lfloor>x\<rfloor> else \<lceil>x\<rceil>)"

section \<open>compose\_images.py: placement\<close>

definition calculate_valid_position ::
  "int \<Rightarrow> int \<Rightarrow> (string \<rightharpoonup> int) \<Rightarrow> nat \<times> nat \<Rightarrow> error + (int \<times> int)" where
  "calculate_valid_position obj_width obj_height config draws =
     bind_result (getitem config ''output_width'') (\<lambda>output_width.
     bind_result (getitem config ''output_height'') (\<lambda>output_height.
     bind_result (getitem config ''object_x_min'') (\<lambda>x_min.
     bind_result (getitem config ''object_x_max'') (\<lambda>x_max.
     bind_result (getitem config ''object_y_max'') (\<lambda>y_max.
       let half_width = obj_width div 2;
           half_height = obj_height div 2;
           valid_x_min = max x_min half_width;
           valid_x_max = min x_max (output_width - half_width);
           valid_y_min = half_height;
           valid_y_max = min y_max (output_height - half_height)
       in if valid_x_min > valid_x_max \<or> valid_y_min > valid_y_max
          then Inr ((x_min + x_max) div 2, y_max div 2)
          else bind_result (randint valid_x_min valid_x_max (fst draws)) (\<lambda>center_x.
               bind_result (randint valid_y_min valid_y_max (snd draws)) (\<lambda>center_y.
                 Inr (center_x, center_y))))))))"

text \<open>
  The configuration the docstring of \<^verbatim>\<open>calculate_valid_position\<close> describes: a canvas of
  1280 by 720, \<open>320 \<le> center_x \<le> 960\<close> and \<open>center_y \<le> 360\<close>.
\<close>

definition documented_config :: "string \<rightharpoonup> int" where
  "documented_config =
     [''output_width'' \<mapsto> 1280, ''output_height'' \<mapsto> 720, ''object_x_min'' \<mapsto> 320,
      ''object_x_max'' \<mapsto> 960, ''object_y_max'' \<mapsto> 360]"

text \<open>
  The rectangle \<^verbatim>\<open>main\<close> records for an object of the given size pasted at a centre
  (the lines after the comment \<^verbatim>\<open># Calculate bounding box\<close>).
\<close>

definition bounding_box :: "int \<times> int \<Rightarrow> int \<Rightarrow> int \<Rightarrow> int \<times> int \<times> int \<times> int" where
  "bounding_box obj_size center_x center_y =
     (let (obj_width, obj_height) = obj_size;
          bbox_left = center_x - obj_width div 2;
          bbox_top = center_y - obj_height div 2;
          bbox_right = bbox_left + obj_width;
          bbox_bottom = bbox_top + obj_height
      in (bbox_left, bbox_top, bbox_right, bbox_bottom))"

section \<open>Pillow images\<close>

text \<open>
  The part of Pillow the scripts call.  An image has a mode, a size and a raster.  The
  modes of the model are the four that hold 8 bit grey or colour with or without alpha
  (images with a palette or other sample formats are outside the model).  The raster
  stores four bytes for every pixel, as Pillow does for its multi-band modes; the mode says
  which bytes are bands: \<open>L\<close> the first, \<open>LA\<close> the first and the last, \<open>RGB\<close> the first three,
  \<open>RGBA\<close> all four.  The raster is only ever read inside the size.
\<close>

datatype mode = Mode_L | Mode_LA | Mode_RGB | Mode_RGBA

type_synonym pixel = "8 word \<times> 8 word \<times> 8 word \<times> 8 word"

type_synonym box = "int \<times> int \<times> int \<times> int"

record image =
  mode :: mode
  size_im :: "int \<times> int"
  pixels :: "int \<Rightarrow> int \<Rightarrow> pixel"

definition inside :: "image \<Rightarrow> int \<Rightarrow> int \<Rightarrow> bool" where
  "inside im x y \<longleftrightarrow> 0 \<le> x \<and> x < fst (size_im im) \<and> 0 \<le> y \<and> y < snd (size_im im)"

text \<open>Reading a region that reaches outside an image gives zero bytes there.\<close>

definition pixel_at :: "image \<Rightarrow> int \<Rightarrow> int \<Rightarrow> pixel" where
  "pixel_at im x y = (if inside im x y then pixels im x y else (0, 0, 0, 0))"

definition alpha_of :: "pixel \<Rightarrow> 8 word" where
  "alpha_of p = (case p of (r, g, b, a) \<Rightarrow> a)"

text \<open>\<^verbatim>\<open>im.getpixel((x, y))\<close>: the bands of the mode, \<^verbatim>\<open>IndexError\<close> outside the image.\<close>

fun bands :: "mode \<Rightarrow> pixel \<Rightarrow> 8 word list" where
  "bands Mode_L (l, _, _, _) = [l]"
| "bands Mode_LA (l, _, _, a) = [l, a]"
| "bands Mode_RGB (r, g, b, _) = [r, g, b]"
| "bands Mode_RGBA (r, g, b, a) = [r, g, b, a]"

definition getpixel :: "image \<Rightarrow> int \<times> int \<Rightarrow> error + 8 word list" where
  "getpixel im xy =
     (if inside im (fst xy) (snd xy)
      then Inr (bands (mode im) (pixels im (fst xy) (snd xy)))
      else Inl IndexError)"

text \<open>
  \<^verbatim>\<open>im.convert("RGBA")\<close> and \<^verbatim>\<open>im.convert("RGB")\<close>: grey is copied to the three colour
  bands, a missing alpha is opaque, and the conversion to \<open>RGB\<close> drops alpha.
\<close>

fun to_RGBA :: "mode \<Rightarrow> pixel \<Rightarrow> pixel" where
  "to_RGBA Mode_L (l, _, _, _) = (l, l, l, 255)"
| "to_RGBA Mode_LA (l, _, _, a) = (l, l, l, a)"
| "to_RGBA Mode_RGB (r, g, b, _) = (r, g, b, 255)"
| "to_RGBA Mode_RGBA (r, g, b, a) = (r, g, b, a)"

definition convert_RGBA :: "image \<Rightarrow> image" where
  "convert_RGBA im =
     \<lparr>mode = Mode_RGBA, size_im = size_im im,
      pixels = (\<lambda>x y. to_RGBA (mode im) (pixels im x y))\<rparr>"

definition convert_RGB :: "image \<Rightarrow> image" where
  "convert_RGB im =
     \<lparr>mode = Mode_RGB, size_im = size_im im,
      pixels = (\<lambda>x y. case to_RGBA (mode im) (pixels im x y) of (r, g, b, a) \<Rightarrow> (r, g, b, 255))\<rparr>"

text \<open>\<^verbatim>\<open>im.split()\<close>: one image of mode \<open>L\<close> for every band.\<close>

definition band_image :: "image \<Rightarrow> nat \<Rightarrow> image" where
  "band_image im i =
     \<lparr>mode = Mode_L, size_im = size_im im,
      pixels = (\<lambda>x y. (bands (mode im) (pixels im x y) ! i, 0, 0, 0))\<rparr>"

definition split_bands :: "image \<Rightarrow> image list" where
  "split_bands im = map (band_image im) [0 ..< length (bands (mode im) (0, 0, 0, 0))]"

text \<open>\<^verbatim>\<open>xs[i]\<close> for an index that is not negative.\<close>

definition getindex :: "'a list \<Rightarrow> nat \<Rightarrow> error + 'a" where
  "getindex xs i = (if i < length xs then Inr (xs ! i) else Inl IndexError)"

text \<open>
  \<^verbatim>\<open>im.getbbox()\<close> on a single band: the smallest box \<open>(left, upper, right, lower)\<close>, right
  and lower exclusive, that holds every non-zero pixel; \<^verbatim>\<open>None\<close> when there is none.
\<close>

definition nonzero :: "image \<Rightarrow> int \<Rightarrow> int \<Rightarrow> bool" where
  "nonzero im x y \<longleftrightarrow> fst (pixels im x y) \<noteq> 0"

definition getbbox :: "image \<Rightarrow> box option" where
  "getbbox im =
     (let (w, h) = size_im im;
          xs = filter (\<lambda>x. \<exists>y \<in> set [0 .. h - 1]. nonzero im x y) [0 .. w - 1];
          ys = filter (\<lambda>y. \<exists>x \<in> set [0 .. w - 1]. nonzero im x y) [0 .. h - 1]
      in if xs = [] \<or> ys = [] then None
         else Some (hd xs, hd ys, last xs + 1, last ys + 1))"

text \<open>
  \<^verbatim>\<open>im.crop(box)\<close>: a new image of the box's size; \<^verbatim>\<open>ValueError\<close> when right is less than
  left or lower less than upper.
\<close>

definition crop :: "image \<Rightarrow> box \<Rightarrow> error + image" where
  "crop im bx =
     (case bx of (x0, y0, x1, y1) \<Rightarrow>
        if x1 < x0 then Inl ValueError
        else if y1 < y0 then Inl ValueError
        else Inr \<lparr>mode = mode im, size_im = (x1 - x0, y1 - y0),
                  pixels = (\<lambda>x y. if 0 \<le> x \<and> x < x1 - x0 \<and> 0 \<le> y \<and> y < y1 - y0
                                   then pixel_at im (x + x0) (y + y0) else (0, 0, 0, 0))\<rparr>)"

text \<open>
  \<^verbatim>\<open>im.resize(size, Image.Resampling.LANCZOS)\<close>: a new image of the requested size;
  \<^verbatim>\<open>ValueError\<close> (height and width must be > 0) when a requested dimension is below 1.
  The resampling filter computes in floating point and is an argument of the model: it
  gives the pixel at a position of the result.
\<close>

type_synonym resampling = "image \<Rightarrow> int \<times> int \<Rightarrow> int \<Rightarrow> int \<Rightarrow> pixel"

definition resize :: "image \<Rightarrow> int \<times> int \<Rightarrow> resampling \<Rightarrow> error + image" where
  "resize im sz resample =
     (if fst sz < 1 \<or> snd sz < 1 then Inl ValueError
      else Inr \<lparr>mode = mode im, size_im = sz, pixels = resample im sz\<rparr>)"

section \<open>crop\_objects.py\<close>

text \<open>The block under \<^verbatim>\<open>if padding > 0:\<close>, which widens the box and clamps it to the image.\<close>

definition add_padding :: "box \<Rightarrow> int \<times> int \<Rightarrow> int \<Rightarrow> box" where
  "add_padding bbox sz padding =
     (if padding > 0
      then (let (left, top, right, bottom) = bbox;
                (width, height) = sz
            in (max 0 (left - padding), max 0 (top - padding),
                min width (right + padding), min height (bottom + padding)))
      else bbox)"

text \<open>The result is the lines printed and the image returned.\<close>

definition crop_to_content :: "image \<Rightarrow> int \<Rightarrow> error + (string list \<times> image)" where
  "crop_to_content image0 padding =
     (let image = (if mode image0 \<noteq> Mode_RGBA then convert_RGBA image0 else image0)
      in bind_result (getindex (split_bands image) 3) (\<lambda>alpha.
           case getbbox alpha of
             None \<Rightarrow> Inr ([''  Warning: Image is fully transparent''], image)
           | Some bbox \<Rightarrow>
               bind_result (crop image (add_padding bbox (size_im image) padding))
                 (\<lambda>cropped. Inr ([], cropped))))"

section \<open>compose\_images.py: resizing\<close>

text \<open>
  \<^verbatim>\<open>Image.Resampling.LANCZOS\<close> is the argument \<open>LANCZOS\<close>.  The names \<open>image\<close> and
  \<open>background\<close> that the source assigns twice are numbered.
\<close>

definition crop_and_resize_to_target ::
  "image \<Rightarrow> int \<Rightarrow> int \<Rightarrow> resampling \<Rightarrow> error + image" where
  "crop_and_resize_to_target image0 target_width target_height LANCZOS =
     bind_result (truediv target_width target_height) (\<lambda>target_ratio.
       let (img_width, img_height) = size_im image0
       in bind_result (truediv img_width img_height) (\<lambda>img_ratio.
            if \<bar>float_sub img_ratio target_ratio\<bar> < fl (1 / 1000)
            then resize image0 (target_width, target_height) LANCZOS
            else bind_result
                   (if img_ratio > target_ratio
                    then (let new_width = py_int (int_mul_float img_height target_ratio);
                              left = (img_width - new_width) div 2
                          in crop image0 (left, 0, left + new_width, img_height))
                    else bind_result (int_truediv_float img_width target_ratio) (\<lambda>quotient.
                           let new_height = py_int quotient;
                               top = (img_height - new_height) div 2
                           in crop image0 (0, top, img_width, top + new_height)))
                   (\<lambda>image1. resize image1 (target_width, target_height) LANCZOS)))"


section \<open>compose\_images.py: compositing\<close>

text \<open>
  \<^verbatim>\<open>im.paste(src, (left, top), mask)\<close> changes the image it is called on.  To let a
  statement about the caller's image mean something, the images of this function live in
  a store and the names of the source are references into it: \<open>convert\<close> and \<open>copy\<close> put
  a new image into the store, \<open>paste\<close> overwrites the image at a reference.  A reference
  in scope always points into the store.
\<close>

type_synonym ref = nat

type_synonym store = "image list"

definition alloc :: "store \<Rightarrow> image \<Rightarrow> store \<times> ref" where
  "alloc s im = (s @ [im], length s)"

text \<open>
  Pasting through a mask of mode \<open>RGBA\<close> blends every byte of the destination with the
  source's, weighted by the alpha of the mask; the region is clipped to the destination.
  \<^verbatim>\<open>ValueError\<close> (images do not match) when the mask's size is not the source's.
\<close>

definition blend8 :: "8 word \<Rightarrow> 8 word \<Rightarrow> 8 word \<Rightarrow> 8 word" where
  "blend8 weight in1 in2 =
     (let tmp = unat in1 * (255 - unat weight) + unat in2 * unat weight + 128
      in of_nat ((tmp div 256 + tmp) div 256))"

definition blend_pixel :: "8 word \<Rightarrow> pixel \<Rightarrow> pixel \<Rightarrow> pixel" where
  "blend_pixel weight p q =
     (case p of (r1, g1, b1, a1) \<Rightarrow> case q of (r2, g2, b2, a2) \<Rightarrow>
        (blend8 weight r1 r2, blend8 weight g1 g2, blend8 weight b1 b2, blend8 weight a1 a2))"

definition paste :: "image \<Rightarrow> image \<Rightarrow> int \<times> int \<Rightarrow> image \<Rightarrow> error + image" where
  "paste dst src origin mask_image =
     (if size_im mask_image \<noteq> size_im src then Inl ValueError
      else Inr (dst\<lparr>pixels :=
             (\<lambda>x y. let sx = x - fst origin; sy = y - snd origin
                    in if inside dst x y \<and> inside src sx sy
                       then blend_pixel (alpha_of (pixels mask_image sx sy))
                              (pixels dst x y) (pixels src sx sy)
                       else pixels dst x y)\<rparr>))"

definition composite_images ::
  "store \<Rightarrow> ref \<Rightarrow> ref \<Rightarrow> int \<Rightarrow> int \<Rightarrow> error + (store \<times> ref)" where
  "composite_images s0 background0 obj_image0 center_x center_y =
     (let (s1, background) =
            (if mode (s0 ! background0) \<noteq> Mode_RGBA
             then alloc s0 (convert_RGBA (s0 ! background0)) else (s0, background0));
          (s2, obj_image) =
            (if mode (s1 ! obj_image0) \<noteq> Mode_RGBA
             then alloc s1 (convert_RGBA (s1 ! obj_image0)) else (s1, obj_image0));
          (obj_width, obj_height) = size_im (s2 ! obj_image);
          left = center_x - obj_width div 2;
          top = center_y - obj_height div 2;
          (s3, result) = alloc s2 (s2 ! background)
      in bind_result (paste (s3 ! result) (s3 ! obj_image) (left, top) (s3 ! obj_image))
           (\<lambda>pasted. Inr (alloc (s3[result := pasted]) (convert_RGB pasted))))"

text \<open>
  The colour the composite has where an object pasted at \<open>origin\<close> covers the background:
  both pixels as \<open>RGBA\<close>, blended by the object's alpha, alpha dropped.
\<close>

definition covered_pixel :: "image \<Rightarrow> image \<Rightarrow> int \<times> int \<Rightarrow> int \<Rightarrow> int \<Rightarrow> pixel" where
  "covered_pixel bg obj origin x y =
     (let p = to_RGBA (mode bg) (pixels bg x y);
          q = to_RGBA (mode obj) (pixels obj (x - fst origin) (y - snd origin))
      in case blend_pixel (alpha_of q) p q of (r, g, b, a) \<Rightarrow> (r, g, b, 255))"

section \<open>Example images\<close>

text \<open>A 3 by 3 \<open>RGBA\<close> image with one opaque pixel in the middle.\<close>

definition dot_image :: image where
  "dot_image =
     \<lparr>mode = Mode_RGBA, size_im = (3, 3),
      pixels = (\<lambda>x y. if x = 1 \<and> y = 1 then (10, 20, 30, 255) else (0, 0, 0, 0))\<rparr>"

text \<open>Fully transparent images: 2 by 2 in \<open>RGBA\<close>, and one grey pixel with alpha 0 in \<open>LA\<close>.\<close>

definition transparent_RGBA :: image where
  "transparent_RGBA = \<lparr>mode = Mode_RGBA, size_im = (2, 2), pixels = (\<lambda>x y. (9, 9, 9, 0))\<rparr>"

definition transparent_LA :: image where
  "transparent_LA = \<lparr>mode = Mode_LA, size_im = (1, 1), pixels = (\<lambda>x y. (7, 0, 0, 0))\<rparr>"

text \<open>Plain images of one colour, for the scenarios of the specification.\<close>

definition plain_image :: "mode \<Rightarrow> int \<times> int \<Rightarrow> image" where
  "plain_image m sz = \<lparr>mode = m, size_im = sz, pixels = (\<lambda>x y. (50, 100, 150, 255))\<rparr>"


section \<open>Results\<close>

subsection \<open>Placement\<close>


lemma bind_result_Inr [simp]: "bind_result (Inr v) f = f v"
  by (simp add: bind_result_def)

lemma bind_result_Inl [simp]: "bind_result (Inl e) f = Inl e"
  by (simp add: bind_result_def)

lemma getitem_Some: "config key = Some v \<Longrightarrow> getitem config key = Inr v"
  by (simp add: getitem_def)

lemma randint_range:
  assumes "a \<le> b"
  shows "\<exists>v. randint a b draw = Inr v \<and> a \<le> v \<and> v \<le> b"
proof -
  from assms have pos: "0 < nat (b - a + 1)" by simp
  have "draw mod nat (b - a + 1) < nat (b - a + 1)"
    using pos by (rule mod_less_divisor)
  then have "int (draw mod nat (b - a + 1)) \<le> b - a" by linarith
  with assms show ?thesis by (simp add: randint_def)
qed

text \<open>
  The shape of every result when the five keys are present: the fallback when a range is
  inverted, and otherwise a centre inside both derived ranges.
\<close>

lemma calculate_valid_position_cases:
  assumes "config ''output_width'' = Some W" "config ''output_height'' = Some H"
    and "config ''object_x_min'' = Some x_min" "config ''object_x_max'' = Some x_max"
    and "config ''object_y_max'' = Some y_max"
  shows "(if max x_min (obj_width div 2) > min x_max (W - obj_width div 2)
             \<or> obj_height div 2 > min y_max (H - obj_height div 2)
          then calculate_valid_position obj_width obj_height config draws
                 = Inr ((x_min + x_max) div 2, y_max div 2)
          else \<exists>cx cy. calculate_valid_position obj_width obj_height config draws = Inr (cx, cy)
                 \<and> max x_min (obj_width div 2) \<le> cx \<and> cx \<le> min x_max (W - obj_width div 2)
                 \<and> obj_height div 2 \<le> cy \<and> cy \<le> min y_max (H - obj_height div 2))"
proof -
  let ?xa = "max x_min (obj_width div 2)" and ?xb = "min x_max (W - obj_width div 2)"
  let ?ya = "obj_height div 2" and ?yb = "min y_max (H - obj_height div 2)"
  show ?thesis
  proof (cases "?xa > ?xb \<or> ?ya > ?yb")
    case True
    then show ?thesis
      using assms by (simp add: calculate_valid_position_def getitem_Some Let_def)
  next
    case False
    then have x: "?xa \<le> ?xb" and y: "?ya \<le> ?yb" by auto
    from randint_range [OF x] obtain cx where
      cx: "randint ?xa ?xb (fst draws) = Inr cx" "?xa \<le> cx" "cx \<le> ?xb" by blast
    from randint_range [OF y] obtain cy where
      cy: "randint ?ya ?yb (snd draws) = Inr cy" "?ya \<le> cy" "cy \<le> ?yb" by blast
    have "calculate_valid_position obj_width obj_height config draws = Inr (cx, cy)"
      using assms False cx(1) cy(1)
      by (simp add: calculate_valid_position_def getitem_Some Let_def)
    with cx cy False show ?thesis by auto
  qed
qed

text \<open>
  With the halves taken by floor division, as the code takes them, a centre drawn from
  non-inverted ranges keeps \<open>center - half\<close> and \<open>center + half\<close> on the canvas.
\<close>

lemma calculate_valid_position_floor_halves:
  assumes "config ''output_width'' = Some W" "config ''output_height'' = Some H"
    and "config ''object_x_min'' = Some x_min" "config ''object_x_max'' = Some x_max"
    and "config ''object_y_max'' = Some y_max"
    and "max x_min (obj_width div 2) \<le> min x_max (W - obj_width div 2)"
    and "obj_height div 2 \<le> min y_max (H - obj_height div 2)"
  shows "\<exists>cx cy. calculate_valid_position obj_width obj_height config draws = Inr (cx, cy)
           \<and> 0 \<le> cx - obj_width div 2 \<and> cx + obj_width div 2 \<le> W
           \<and> 0 \<le> cy - obj_height div 2 \<and> cy + obj_height div 2 \<le> H"
  using calculate_valid_position_cases [OF assms(1-5), of obj_width obj_height draws] assms(6,7)
  by (auto simp: not_less)

text \<open>
  The halves that bound the ranges are floored, so an object of odd width or height is
  allowed one pixel too far to the right and to the bottom.  With the documented
  configuration an object 721 high has the non-inverted range \<open>[360, 360]\<close> and every
  draw places it on the rows 0 to 721 of a canvas 720 high.
\<close>

lemma calculate_valid_position_odd_height_overflow:
  "\<exists>cx. calculate_valid_position 100 721 documented_config draws = Inr (cx, 360)
      \<and> 320 \<le> cx \<and> cx \<le> 960
      \<and> bounding_box (100, 721) cx 360 = (cx - 50, 0, cx + 50, 721)"
proof -
  have "\<exists>cx cy. calculate_valid_position 100 721 documented_config draws = Inr (cx, cy)
      \<and> max 320 (100 div 2) \<le> cx \<and> cx \<le> min 960 (1280 - 100 div 2)
      \<and> 721 div 2 \<le> cy \<and> cy \<le> min 360 (720 - 721 div 2)"
    using calculate_valid_position_cases [of documented_config 1280 720 320 960 360 100 721 draws]
    by (simp add: documented_config_def)
  then obtain cx cy where
    r: "calculate_valid_position 100 721 documented_config draws = Inr (cx, cy)"
    and b: "320 \<le> cx" "cx \<le> 960" "360 \<le> cy" "cy \<le> 360"
    by auto
  from b have "cy = 360" by simp
  with r b show ?thesis
    by (auto simp: bounding_box_def)
qed

text \<open>
  C1 (the object fully fits on the canvas when the derived ranges are not inverted).
  The code does not keep it for an odd dimension.  With the documented configuration an
  object of 641 by 200 has the non-inverted ranges \<open>[320, 960]\<close> and \<open>[100, 360]\<close>.  When
  the generator delivers the upper end of the first, the centre is \<open>(960, 100)\<close>:
  \<open>center_x + 641 / 2 = 1280.5\<close> is beyond the canvas width 1280, and the rectangle
  pasted and recorded is \<open>(640, 0, 1281, 200)\<close>.
\<close>

theorem calculate_valid_position_odd_width_overflow:
  "calculate_valid_position 641 200 documented_config (640, 0) = Inr (960, 100)
   \<and> max 320 (641 div 2) \<le> min 960 (1280 - 641 div 2 :: int)
   \<and> 200 div 2 \<le> min 360 (720 - 200 div 2 :: int)
   \<and> (1280 :: rat) < 960 + 641 / 2
   \<and> bounding_box (641, 200) 960 100 = (640, 0, 1281, 200)"
  by (simp add: calculate_valid_position_def documented_config_def getitem_def randint_def
        bounding_box_def)

text \<open>
  C2 (an inverted range gives the deterministic fallback and no exception).
  Whenever the five keys are present and one derived range is inverted, the result is
  \<open>((x_min + x_max) // 2, y_max // 2)\<close>, whatever the generator would deliver.
\<close>

theorem calculate_valid_position_fallback:
  assumes "config ''output_width'' = Some W" "config ''output_height'' = Some H"
    and "config ''object_x_min'' = Some x_min" "config ''object_x_max'' = Some x_max"
    and "config ''object_y_max'' = Some y_max"
    and "max x_min (obj_width div 2) > min x_max (W - obj_width div 2)
           \<or> obj_height div 2 > min y_max (H - obj_height div 2)"
  shows "calculate_valid_position obj_width obj_height config draws
           = Inr ((x_min + x_max) div 2, y_max div 2)"
  using calculate_valid_position_cases [OF assms(1-5), of obj_width obj_height draws] assms(6)
  by (simp split: if_splits)

text \<open>The scenario of the specification: 800 by 800 on the documented configuration.\<close>

theorem calculate_valid_position_fallback_witness:
  "\<forall>draws. calculate_valid_position 800 800 documented_config draws = Inr (640, 180)"
  using calculate_valid_position_fallback [of documented_config 1280 720 320 960 360 800 800]
  by (simp add: documented_config_def)

subsection \<open>The bounding box of a band\<close>

lemma sorted_hd_le: "sorted xs \<Longrightarrow> x \<in> set xs \<Longrightarrow> hd xs \<le> (x::int)"
  by (cases xs) auto

lemma sorted_le_last: "sorted xs \<Longrightarrow> x \<in> set xs \<Longrightarrow> (x::int) \<le> last xs"
  by (induction xs) auto

lemma filter_upto_bounds:
  assumes "P k" "a \<le> k" "k \<le> b"
  shows "filter P [a..b] \<noteq> []"
    and "a \<le> hd (filter P [a..b])" and "hd (filter P [a..b]) \<le> k"
    and "k \<le> last (filter P [a..b])" and "last (filter P [a..b]) \<le> b"
    and "P (hd (filter P [a..b]))" and "P (last (filter P [a..b]))"
proof -
  let ?xs = "filter P [a..b]"
  have k: "k \<in> set ?xs" using assms by simp
  show ne: "?xs \<noteq> []" using k by (metis empty_iff empty_set)
  have s: "sorted ?xs" by (simp add: sorted_wrt_filter)
  have "hd ?xs \<in> set ?xs" by (rule hd_in_set [OF ne])
  then have h: "hd ?xs \<in> {x \<in> set [a..b]. P x}" by (simp only: set_filter)
  have "last ?xs \<in> set ?xs" by (rule last_in_set [OF ne])
  then have l: "last ?xs \<in> {x \<in> set [a..b]. P x}" by (simp only: set_filter)
  from h show "a \<le> hd ?xs" "P (hd ?xs)" by auto
  from l show "last ?xs \<le> b" "P (last ?xs)" by auto
  show "hd ?xs \<le> k" using s k by (rule sorted_hd_le)
  show "k \<le> last ?xs" using s k by (rule sorted_le_last)
qed

lemma alpha_band:
  "mode im = Mode_RGBA \<Longrightarrow> getindex (split_bands im) 3 = Inr (band_image im 3)"
  by (simp add: getindex_def split_bands_def numeral_3_eq_3)

lemma nonzero_alpha_band:
  "mode im = Mode_RGBA \<Longrightarrow> nonzero (band_image im 3) x y \<longleftrightarrow> alpha_of (pixels im x y) \<noteq> 0"
  by (cases "pixels im x y") (simp add: nonzero_def band_image_def alpha_of_def)

lemma getbbox_None:
  assumes "\<And>x y. inside a x y \<Longrightarrow> \<not> nonzero a x y"
  shows "getbbox a = None"
proof -
  obtain w h where sz: "size_im a = (w, h)" by (cases "size_im a")
  have "filter (\<lambda>x. \<exists>y \<in> set [0 .. h - 1]. nonzero a x y) [0 .. w - 1] = []"
    using assms sz by (auto simp: filter_empty_conv inside_def)
  then show ?thesis by (simp add: getbbox_def sz)
qed

lemma getbbox_tight:
  assumes sz: "size_im a = (w, h)" and nz: "inside a x0 y0" "nonzero a x0 y0"
  shows "\<exists>l t r b. getbbox a = Some (l, t, r, b)
           \<and> 0 \<le> l \<and> l \<le> x0 \<and> x0 < r \<and> r \<le> w \<and> 0 \<le> t \<and> t \<le> y0 \<and> y0 < b \<and> b \<le> h
           \<and> (\<exists>y. inside a l y \<and> nonzero a l y)
           \<and> (\<exists>y. inside a (r - 1) y \<and> nonzero a (r - 1) y)
           \<and> (\<exists>x. inside a x t \<and> nonzero a x t)
           \<and> (\<exists>x. inside a x (b - 1) \<and> nonzero a x (b - 1))"
proof -
  let ?P = "\<lambda>x. \<exists>y \<in> set [0 .. h - 1]. nonzero a x y"
  let ?Q = "\<lambda>y. \<exists>x \<in> set [0 .. w - 1]. nonzero a x y"
  let ?xs = "filter ?P [0 .. w - 1]" and ?ys = "filter ?Q [0 .. h - 1]"
  from nz sz have in0: "0 \<le> x0" "x0 \<le> w - 1" "0 \<le> y0" "y0 \<le> h - 1"
    by (simp_all add: inside_def)
  have P0: "?P x0" using nz(2) in0 by auto
  have Q0: "?Q y0" using nz(2) in0 by auto
  note X = filter_upto_bounds [of ?P x0 0 "w - 1", OF P0 in0(1,2)]
  note Y = filter_upto_bounds [of ?Q y0 0 "h - 1", OF Q0 in0(3,4)]
  have g: "getbbox a = Some (hd ?xs, hd ?ys, last ?xs + 1, last ?ys + 1)"
    using X(1) Y(1) by (simp add: getbbox_def sz Let_def)
  have hx: "0 \<le> hd ?xs" "hd ?xs \<le> last ?xs" "last ?xs \<le> w - 1"
    using X(2,3,4,5) by linarith+
  have hy: "0 \<le> hd ?ys" "hd ?ys \<le> last ?ys" "last ?ys \<le> h - 1"
    using Y(2,3,4,5) by linarith+
  have e1: "\<exists>y. inside a (hd ?xs) y \<and> nonzero a (hd ?xs) y"
    using X(6) hx sz by (auto simp: inside_def)
  have e2: "\<exists>y. inside a (last ?xs) y \<and> nonzero a (last ?xs) y"
    using X(7) hx sz by (auto simp: inside_def)
  have e3: "\<exists>x. inside a x (hd ?ys) \<and> nonzero a x (hd ?ys)"
    using Y(6) hy sz by (auto simp: inside_def)
  have e4: "\<exists>x. inside a x (last ?ys) \<and> nonzero a x (last ?ys)"
    using Y(7) hy sz by (auto simp: inside_def)
  show ?thesis
    using g hx hy X(3,4) Y(3,4) e1 e2 e3 e4 by simp
qed

lemma getbbox_eqI:
  assumes sz: "size_im a = (w, h)"
    and el: "inside a l yl" "nonzero a l yl"
    and er: "inside a (r - 1) yr" "nonzero a (r - 1) yr"
    and et: "inside a xt t" "nonzero a xt t"
    and eb: "inside a xb (b - 1)" "nonzero a xb (b - 1)"
    and all: "\<And>x y. inside a x y \<Longrightarrow> nonzero a x y \<Longrightarrow> l \<le> x \<and> x < r \<and> t \<le> y \<and> y < b"
  shows "getbbox a = Some (l, t, r, b)"
proof -
  from getbbox_tight [OF sz el] obtain l' t' r' b' where
    g: "getbbox a = Some (l', t', r', b')" and "l' \<le> l"
    and w: "\<exists>y. inside a l' y \<and> nonzero a l' y" "\<exists>y. inside a (r' - 1) y \<and> nonzero a (r' - 1) y"
      "\<exists>x. inside a x t' \<and> nonzero a x t'" "\<exists>x. inside a x (b' - 1) \<and> nonzero a x (b' - 1)"
    by blast
  from w all have 1: "l \<le> l'" "r' - 1 < r" "t \<le> t'" "b' - 1 < b" by blast+
  from getbbox_tight [OF sz er] g have 2: "r - 1 < r'" by auto
  from getbbox_tight [OF sz et] g have 3: "t' \<le> t" by auto
  from getbbox_tight [OF sz eb] g have 4: "b - 1 < b'" by auto
  from 1 2 3 4 \<open>l' \<le> l\<close> have "l' = l" "r' = r" "t' = t" "b' = b" by linarith+
  with g show ?thesis by simp
qed

subsection \<open>crop\_to\_content\<close>

lemma to_RGBA_RGBA [simp]: "to_RGBA Mode_RGBA p = p"
  by (cases p) simp

lemma convert_RGBA_simps [simp]:
  "mode (convert_RGBA im) = Mode_RGBA"
  "size_im (convert_RGBA im) = size_im im"
  "pixels (convert_RGBA im) x y = to_RGBA (mode im) (pixels im x y)"
  by (simp_all add: convert_RGBA_def)

lemma convert_RGBA_id: "mode im = Mode_RGBA \<Longrightarrow> convert_RGBA im = im"
  by (cases im) (simp add: convert_RGBA_def)

lemma inside_band_image [simp]: "inside (band_image im i) x y = inside im x y"
  by (simp add: inside_def band_image_def)

lemma inside_convert_RGBA [simp]: "inside (convert_RGBA im) x y = inside im x y"
  by (simp add: inside_def)

lemma size_band_image [simp]: "size_im (band_image im i) = size_im im"
  by (simp add: band_image_def)

lemma crop_to_content_unfold:
  "crop_to_content im padding =
     (case getbbox (band_image (convert_RGBA im) 3) of
        None \<Rightarrow> Inr ([''  Warning: Image is fully transparent''], convert_RGBA im)
      | Some bbox \<Rightarrow>
          bind_result (crop (convert_RGBA im) (add_padding bbox (size_im im) padding))
            (\<lambda>cropped. Inr ([], cropped)))"
  by (cases "mode im = Mode_RGBA")
     (simp_all add: crop_to_content_def Let_def alpha_band convert_RGBA_id cong: option.case_cong)

lemma crop_Inr:
  "x0 \<le> x1 \<Longrightarrow> y0 \<le> y1 \<Longrightarrow>
   crop im (x0, y0, x1, y1) =
     Inr \<lparr>mode = mode im, size_im = (x1 - x0, y1 - y0),
          pixels = (\<lambda>x y. if 0 \<le> x \<and> x < x1 - x0 \<and> 0 \<le> y \<and> y < y1 - y0
                           then pixel_at im (x + x0) (y + y0) else (0, 0, 0, 0))\<rparr>"
  by (simp add: crop_def)

lemma add_padding_within:
  assumes "0 \<le> padding" "0 \<le> l" "l < r" "r \<le> w" "0 \<le> t" "t < b" "b \<le> h"
  shows "\<exists>l' t' r' b'. add_padding (l, t, r, b) (w, h) padding = (l', t', r', b')
           \<and> 0 \<le> l' \<and> l' \<le> l \<and> r \<le> r' \<and> r' \<le> w \<and> 0 \<le> t' \<and> t' \<le> t \<and> b \<le> b' \<and> b' \<le> h"
  using assms by (simp add: add_padding_def)

text \<open>
  C5 (the box that is cropped lies inside the image for every padding that is not
  negative).  When some pixel has alpha above zero, \<open>getbbox\<close> of the alpha band gives a
  box, the box after \<open>add_padding\<close> satisfies \<open>0 \<le> left < right \<le> width\<close> and
  \<open>0 \<le> top < bottom \<le> height\<close>, and \<open>crop_to_content\<close> returns the crop to that box.
\<close>

theorem crop_to_content_box_within_image:
  assumes "0 \<le> padding" and "size_im im = (w, h)"
    and "inside im x0 y0" and "0 < alpha_of (pixels (convert_RGBA im) x0 y0)"
  shows "\<exists>bbox l t r b cropped.
           getbbox (band_image (convert_RGBA im) 3) = Some bbox
           \<and> add_padding bbox (size_im im) padding = (l, t, r, b)
           \<and> 0 \<le> l \<and> l < r \<and> r \<le> w \<and> 0 \<le> t \<and> t < b \<and> b \<le> h
           \<and> crop (convert_RGBA im) (l, t, r, b) = Inr cropped
           \<and> crop_to_content im padding = Inr ([], cropped)"
proof -
  let ?a = "band_image (convert_RGBA im) 3"
  have sz: "size_im ?a = (w, h)" using assms(2) by simp
  have nz: "nonzero ?a x0 y0"
    using assms(4) by (simp add: nonzero_alpha_band word_neq_0_conv del: convert_RGBA_simps(3))
  have ins: "inside ?a x0 y0" using assms(3) by simp
  from getbbox_tight [OF sz ins nz] obtain l t r b where
    g: "getbbox ?a = Some (l, t, r, b)"
    and bd: "0 \<le> l" "l < r" "r \<le> w" "0 \<le> t" "t < b" "b \<le> h"
    by force
  from add_padding_within [OF assms(1) bd] obtain l' t' r' b' where
    p: "add_padding (l, t, r, b) (w, h) padding = (l', t', r', b')"
    and pb: "0 \<le> l'" "l' \<le> l" "r \<le> r'" "r' \<le> w" "0 \<le> t'" "t' \<le> t" "b \<le> b'" "b' \<le> h"
    by blast
  from pb bd have le: "l' \<le> r'" "t' \<le> b'" "l' < r'" "t' < b'" by linarith+
  note c = crop_Inr [OF le(1,2), of "convert_RGBA im"]
  have "crop_to_content im padding = Inr ([], projr (crop (convert_RGBA im) (l', t', r', b')))"
    by (simp add: crop_to_content_unfold g assms(2) p c)
  with g p pb le c show ?thesis
    using assms(2) by auto
qed

lemma add_padding_0 [simp]: "add_padding bbox sz 0 = bbox"
  by (simp add: add_padding_def)

lemma crop_full_extent:
  assumes "crop im (l, t, r, b) = Inr c"
  shows "crop c (0, 0, fst (size_im c), snd (size_im c)) = Inr c"
proof -
  from assms have le: "l \<le> r" "t \<le> b"
    by (auto simp: crop_def split: if_splits)
  from assms have c: "c = \<lparr>mode = mode im, size_im = (r - l, b - t),
          pixels = (\<lambda>x y. if 0 \<le> x \<and> x < r - l \<and> 0 \<le> y \<and> y < b - t
                           then pixel_at im (x + l) (y + t) else (0, 0, 0, 0))\<rparr>"
    by (simp add: crop_Inr [OF le])
  have px: "(\<lambda>x y. if 0 \<le> x \<and> x < r - l \<and> 0 \<le> y \<and> y < b - t
               then pixel_at c (x + 0) (y + 0) else (0, 0, 0, 0)) = pixels c"
    by (intro ext) (simp add: c pixel_at_def inside_def cong: if_cong)
  have sc: "size_im c = (r - l, b - t)" by (simp add: c)
  have "crop c (0, 0, r - l, b - t)
          = Inr \<lparr>mode = mode c, size_im = size_im c, pixels = pixels c\<rparr>"
    using le by (simp add: crop_def px sc)
  then show ?thesis by (simp add: sc)
qed

text \<open>
  C6 (cropping to the content with padding 0 is idempotent).  When some pixel has alpha
  above zero, the image cropped with padding 0 has the box \<open>(0, 0, width, height)\<close> as the
  bounding box of its alpha band, and cropping it again with padding 0 returns it as it is.
\<close>

theorem crop_to_content_idempotent:
  assumes "inside im x0 y0" and "0 < alpha_of (pixels (convert_RGBA im) x0 y0)"
  shows "\<exists>cropped. crop_to_content im 0 = Inr ([], cropped)
           \<and> getbbox (band_image cropped 3)
               = Some (0, 0, fst (size_im cropped), snd (size_im cropped))
           \<and> crop_to_content cropped 0 = Inr ([], cropped)"
proof -
  let ?i = "convert_RGBA im"
  let ?a = "band_image ?i 3"
  obtain w h where sz0: "size_im im = (w, h)" by (cases "size_im im")
  then have sz: "size_im ?a = (w, h)" by simp
  have nza: "\<And>x y. nonzero ?a x y \<longleftrightarrow> alpha_of (pixels ?i x y) \<noteq> 0"
    by (rule nonzero_alpha_band) simp
  have nz: "nonzero ?a x0 y0"
    using assms(2) unfolding nza by (simp add: word_neq_0_conv)
  have ins: "inside ?a x0 y0" using assms(1) by simp
  from getbbox_tight [OF sz ins nz] obtain l t r b where
    g: "getbbox ?a = Some (l, t, r, b)"
    and bd: "0 \<le> l" "l < r" "r \<le> w" "0 \<le> t" "t < b" "b \<le> h"
    and el: "\<exists>y. inside ?a l y \<and> nonzero ?a l y"
    and er: "\<exists>y. inside ?a (r - 1) y \<and> nonzero ?a (r - 1) y"
    and et: "\<exists>x. inside ?a x t \<and> nonzero ?a x t"
    and eb: "\<exists>x. inside ?a x (b - 1) \<and> nonzero ?a x (b - 1)"
    by force
  have all: "l \<le> x \<and> x < r \<and> t \<le> y \<and> y < b" if "inside ?a x y" "nonzero ?a x y" for x y
    using getbbox_tight [OF sz that] g by auto
  define c where "c = \<lparr>mode = Mode_RGBA, size_im = (r - l, b - t),
          pixels = (\<lambda>x y. if 0 \<le> x \<and> x < r - l \<and> 0 \<le> y \<and> y < b - t
                           then pixel_at ?i (x + l) (y + t) else (0, 0, 0, 0))\<rparr>"
  have le: "l \<le> r" "t \<le> b" using bd by simp_all
  have cr: "crop ?i (l, t, r, b) = Inr c"
    by (simp add: crop_Inr [OF le] c_def)
  have first: "crop_to_content im 0 = Inr ([], c)"
    by (simp add: crop_to_content_unfold g cr)
  let ?a' = "band_image c 3"
  have mc: "mode c = Mode_RGBA" and sc: "size_im c = (r - l, b - t)"
    by (simp_all add: c_def)
  have sz': "size_im ?a' = (r - l, b - t)" using sc by simp
  have ins': "inside c x y \<longleftrightarrow> 0 \<le> x \<and> x < r - l \<and> 0 \<le> y \<and> y < b - t" for x y
    by (simp add: inside_def sc)
  have nz': "nonzero ?a' x y \<longleftrightarrow> inside ?a' x y \<and> nonzero ?a (x + l) (y + t)" for x y
  proof (cases "inside ?a' x y")
    case True
    then have rng: "0 \<le> x \<and> x < r - l \<and> 0 \<le> y \<and> y < b - t" by (simp add: ins')
    then have "inside ?i (x + l) (y + t)"
      using bd sz0 by (simp add: inside_def)
    with rng have p: "pixels c x y = pixels ?i (x + l) (y + t)"
      by (simp add: c_def pixel_at_def del: convert_RGBA_simps(3))
    show ?thesis
      unfolding nonzero_alpha_band [OF mc] nza p using True by simp
  next
    case False
    then have "\<not> (0 \<le> x \<and> x < r - l \<and> 0 \<le> y \<and> y < b - t)" by (simp add: ins')
    then have p: "pixels c x y = (0, 0, 0, 0)"
      by (auto simp: c_def)
    show ?thesis
      unfolding nonzero_alpha_band [OF mc] p using False by (simp add: alpha_of_def)
  qed
  have shift: "inside ?a' (x - l) (y - t) \<and> nonzero ?a' (x - l) (y - t)"
    if "inside ?a x y" "nonzero ?a x y" for x y
    using all [OF that] that(2) by (simp add: nz' ins')
  from el obtain yl where yl: "inside ?a l yl" "nonzero ?a l yl" by blast
  from er obtain yr where yr: "inside ?a (r - 1) yr" "nonzero ?a (r - 1) yr" by blast
  from et obtain xt where xt: "inside ?a xt t" "nonzero ?a xt t" by blast
  from eb obtain xb where xb: "inside ?a xb (b - 1)" "nonzero ?a xb (b - 1)" by blast
  have g': "getbbox ?a' = Some (0, 0, r - l, b - t)"
  proof (rule getbbox_eqI [OF sz'])
    show "inside ?a' 0 (yl - t)" "nonzero ?a' 0 (yl - t)"
      using shift [OF yl] by simp_all
    show "inside ?a' (r - l - 1) (yr - t)" "nonzero ?a' (r - l - 1) (yr - t)"
      using shift [OF yr] by (simp_all add: algebra_simps)
    show "inside ?a' (xt - l) 0" "nonzero ?a' (xt - l) 0"
      using shift [OF xt] by simp_all
    show "inside ?a' (xb - l) (b - t - 1)" "nonzero ?a' (xb - l) (b - t - 1)"
      using shift [OF xb] by (simp_all add: algebra_simps)
    show "0 \<le> x \<and> x < r - l \<and> 0 \<le> y \<and> y < b - t" if "inside ?a' x y" for x y
      using that by (simp add: ins')
  qed
  have "crop c (0, 0, r - l, b - t) = Inr c"
    using crop_full_extent [OF cr] by (simp add: sc)
  then have second: "crop_to_content c 0 = Inr ([], c)"
    by (simp add: crop_to_content_unfold convert_RGBA_id [OF mc] g')
  from first g' second show ?thesis
    by (auto simp: sc)
qed

text \<open>One opaque pixel in the middle of 3 by 3.\<close>

theorem crop_to_content_idempotent_witness:
  "\<exists>cropped. crop_to_content dot_image 0 = Inr ([], cropped)
     \<and> getbbox (band_image cropped 3)
         = Some (0, 0, fst (size_im cropped), snd (size_im cropped))
     \<and> crop_to_content cropped 0 = Inr ([], cropped)"
  by (rule crop_to_content_idempotent [of dot_image 1 1])
     (simp_all add: dot_image_def inside_def alpha_of_def)

theorem crop_to_content_box_within_image_witness:
  "\<exists>bbox l t r b cropped.
     getbbox (band_image (convert_RGBA dot_image) 3) = Some bbox
     \<and> add_padding bbox (size_im dot_image) 5 = (l, t, r, b)
     \<and> 0 \<le> l \<and> l < r \<and> r \<le> 3 \<and> 0 \<le> t \<and> t < b \<and> b \<le> 3
     \<and> crop (convert_RGBA dot_image) (l, t, r, b) = Inr cropped
     \<and> crop_to_content dot_image 5 = Inr ([], cropped)"
  by (rule crop_to_content_box_within_image [of 5 dot_image 3 3 1 1])
     (simp_all add: dot_image_def inside_def alpha_of_def)

text \<open>
  C7 (a fully transparent image is passed through with a warning).  The function returns
  the image it coerced to \<open>RGBA\<close> at its start, so the result is the input only when the
  input is \<open>RGBA\<close> already.  A transparent image of mode \<open>LA\<close> comes back as an \<open>RGBA\<close>
  image: the mode and the bands of every pixel differ from the input's.
\<close>

theorem crop_to_content_transparent_LA_converted:
  "crop_to_content transparent_LA 0
     = Inr ([''  Warning: Image is fully transparent''], convert_RGBA transparent_LA)
   \<and> convert_RGBA transparent_LA \<noteq> transparent_LA
   \<and> mode transparent_LA = Mode_LA
   \<and> mode (convert_RGBA transparent_LA) = Mode_RGBA
   \<and> getpixel transparent_LA (0, 0) = Inr [7, 0]
   \<and> getpixel (convert_RGBA transparent_LA) (0, 0) = Inr [7, 7, 7, 0]"
proof -
  have "getbbox (band_image (convert_RGBA transparent_LA) 3) = None"
    by (rule getbbox_None)
       (simp add: nonzero_alpha_band transparent_LA_def alpha_of_def)
  then have "crop_to_content transparent_LA 0
     = Inr ([''  Warning: Image is fully transparent''], convert_RGBA transparent_LA)"
    by (simp add: crop_to_content_unfold)
  moreover have "mode transparent_LA = Mode_LA"
    by (simp add: transparent_LA_def)
  moreover have "convert_RGBA transparent_LA \<noteq> transparent_LA"
  proof
    assume "convert_RGBA transparent_LA = transparent_LA"
    then have "mode (convert_RGBA transparent_LA) = mode transparent_LA" by simp
    then show False by (simp add: transparent_LA_def)
  qed
  moreover have "getpixel transparent_LA (0, 0) = Inr [7, 0]"
    "getpixel (convert_RGBA transparent_LA) (0, 0) = Inr [7, 7, 7, 0]"
    by (simp_all add: getpixel_def inside_def transparent_LA_def)
  ultimately show ?thesis by simp
qed

text \<open>
  C7, as the code has it: for every image without a pixel of alpha above zero and every
  padding, nothing is raised, the warning is printed, and the image coerced to \<open>RGBA\<close> is
  returned: the input itself when its mode is \<open>RGBA\<close>, its conversion otherwise, of the
  input's size in both cases.
\<close>

theorem crop_to_content_fully_transparent:
  assumes "\<And>x y. inside im x y \<Longrightarrow> alpha_of (pixels (convert_RGBA im) x y) = 0"
  shows "crop_to_content im padding
           = Inr ([''  Warning: Image is fully transparent''],
                  if mode im = Mode_RGBA then im else convert_RGBA im)
         \<and> size_im (if mode im = Mode_RGBA then im else convert_RGBA im) = size_im im"
proof -
  have "getbbox (band_image (convert_RGBA im) 3) = None"
    using assms by (intro getbbox_None) (simp add: nonzero_alpha_band del: convert_RGBA_simps(3))
  then show ?thesis
    by (simp add: crop_to_content_unfold convert_RGBA_id)
qed

theorem crop_to_content_fully_transparent_witness:
  "crop_to_content transparent_RGBA 4
     = Inr ([''  Warning: Image is fully transparent''], transparent_RGBA)
   \<and> crop_to_content transparent_LA 4
     = Inr ([''  Warning: Image is fully transparent''], convert_RGBA transparent_LA)"
  using crop_to_content_fully_transparent [of transparent_RGBA 4]
    crop_to_content_fully_transparent [of transparent_LA 4]
  by (simp add: transparent_RGBA_def transparent_LA_def alpha_of_def)

subsection \<open>composite\_images\<close>

lemma composite_images_frame:
  assumes "background < length s" "obj_image < length s"
  shows "\<exists>s' result. composite_images s background obj_image center_x center_y = Inr (s', result)
           \<and> take (length s) s' = s
           \<and> length s \<le> result \<and> result < length s'
           \<and> mode (s' ! result) = Mode_RGB
           \<and> size_im (s' ! result) = size_im (s ! background)"
  using assms
  by (auto simp: composite_images_def alloc_def Let_def paste_def nth_append convert_RGB_def
           split: prod.splits)

lemma composite_images_pixels:
  assumes "background < length s" "obj_image < length s"
    and "size_im (s ! obj_image) = (obj_width, obj_height)"
    and "composite_images s background obj_image center_x center_y = Inr (s', result)"
  shows "pixels (s' ! result) x y =
           (let left = center_x - obj_width div 2;
                top = center_y - obj_height div 2
            in if left \<le> x \<and> x < left + obj_width \<and> top \<le> y \<and> y < top + obj_height
                  \<and> inside (s ! background) x y
               then covered_pixel (s ! background) (s ! obj_image) (left, top) x y
               else pixels (convert_RGB (s ! background)) x y)"
  using assms
  by (auto simp: composite_images_def alloc_def Let_def paste_def nth_append convert_RGB_def
           inside_def covered_pixel_def
           split: prod.splits if_splits)

text \<open>
  C8 (the recorded bounding box is the paste rectangle).  The rectangle \<^verbatim>\<open>main\<close> records
  is \<open>(left, top, left + obj_width, top + obj_height)\<close> with
  \<open>left = center_x - obj_width // 2\<close> and \<open>top = center_y - obj_height // 2\<close>; it depends on
  the object's size only, not on its pixels.  It is the rectangle \<open>composite_images\<close>
  pastes into: inside it (and on the canvas) the composite holds the blended pixel,
  everywhere else the background's.
\<close>

theorem bounding_box_is_paste_rectangle:
  assumes "background < length s" "obj_image < length s"
    and "size_im (s ! obj_image) = (obj_width, obj_height)"
  shows "bounding_box (size_im (s ! obj_image)) center_x center_y
           = (center_x - obj_width div 2, center_y - obj_height div 2,
              center_x - obj_width div 2 + obj_width, center_y - obj_height div 2 + obj_height)
         \<and> (\<exists>s' result.
               composite_images s background obj_image center_x center_y = Inr (s', result)
               \<and> (\<forall>x y. case bounding_box (size_im (s ! obj_image)) center_x center_y of
                     (l, t, r, b) \<Rightarrow>
                       pixels (s' ! result) x y =
                         (if l \<le> x \<and> x < r \<and> t \<le> y \<and> y < b \<and> inside (s ! background) x y
                          then covered_pixel (s ! background) (s ! obj_image) (l, t) x y
                          else pixels (convert_RGB (s ! background)) x y)))"
proof -
  from composite_images_frame [OF assms(1,2)] obtain s' result where
    c: "composite_images s background obj_image center_x center_y = Inr (s', result)"
    by blast
  have b: "bounding_box (size_im (s ! obj_image)) center_x center_y
           = (center_x - obj_width div 2, center_y - obj_height div 2,
              center_x - obj_width div 2 + obj_width, center_y - obj_height div 2 + obj_height)"
    by (simp add: bounding_box_def assms(3) Let_def)
  have "pixels (s' ! result) x y =
          (if center_x - obj_width div 2 \<le> x \<and> x < center_x - obj_width div 2 + obj_width
              \<and> center_y - obj_height div 2 \<le> y \<and> y < center_y - obj_height div 2 + obj_height
              \<and> inside (s ! background) x y
           then covered_pixel (s ! background) (s ! obj_image)
                  (center_x - obj_width div 2, center_y - obj_height div 2) x y
           else pixels (convert_RGB (s ! background)) x y)" for x y
    using composite_images_pixels [OF assms c, of x y] by (simp add: Let_def)
  with b c show ?thesis by simp
qed

text \<open>
  A transparent background of 2 by 2 and the dot of 3 by 3 pasted at the centre (1, 1):
  the rectangle is \<open>(0, 0, 3, 3)\<close>, the dot's opaque pixel lands on (1, 1) and its
  transparent corner leaves the background at (0, 0).
\<close>

theorem bounding_box_is_paste_rectangle_witness:
  "bounding_box (size_im dot_image) 1 1 = (0, 0, 3, 3)
   \<and> (\<exists>s' result. composite_images [transparent_RGBA, dot_image] 0 1 1 1 = Inr (s', result)
         \<and> pixels (s' ! result) 1 1 = (10, 20, 30, 255)
         \<and> pixels (s' ! result) 0 0 = (9, 9, 9, 255))"
proof -
  have sz: "size_im ([transparent_RGBA, dot_image] ! 1) = (3, 3)"
    by (simp add: dot_image_def)
  from bounding_box_is_paste_rectangle [of 0 "[transparent_RGBA, dot_image]" 1 3 3 1 1, OF _ _ sz]
  obtain s' result where
    b: "bounding_box (size_im dot_image) 1 1 = (0, 0, 3, 3)"
    and c: "composite_images [transparent_RGBA, dot_image] 0 1 1 1 = Inr (s', result)"
    and p: "\<And>x y. pixels (s' ! result) x y =
              (if 0 \<le> x \<and> x < 3 \<and> 0 \<le> y \<and> y < 3 \<and> inside transparent_RGBA x y
               then covered_pixel transparent_RGBA dot_image (0, 0) x y
               else pixels (convert_RGB transparent_RGBA) x y)"
    by auto
  have "pixels (s' ! result) 1 1 = (10, 20, 30, 255)"
    unfolding p
    by (simp add: inside_def covered_pixel_def transparent_RGBA_def dot_image_def
          blend_pixel_def blend8_def alpha_of_def)
  moreover have "pixels (s' ! result) 0 0 = (9, 9, 9, 255)"
    unfolding p
    by (simp add: inside_def covered_pixel_def transparent_RGBA_def dot_image_def
          blend_pixel_def blend8_def alpha_of_def)
  ultimately show ?thesis using b c by blast
qed

text \<open>
  C9 (the caller's background is not changed).  Every image that was in the store before
  the call, the background and the object among them, is the same after it; the result
  is a new image.
\<close>

theorem composite_images_leaves_background:
  assumes "background < length s" "obj_image < length s"
  shows "\<exists>s' result. composite_images s background obj_image center_x center_y = Inr (s', result)
           \<and> s' ! background = s ! background
           \<and> s' ! obj_image = s ! obj_image
           \<and> take (length s) s' = s
           \<and> length s \<le> result \<and> result < length s'"
proof -
  from composite_images_frame [OF assms] obtain s' result where
    c: "composite_images s background obj_image center_x center_y = Inr (s', result)"
    and t: "take (length s) s' = s" and r: "length s \<le> result" "result < length s'"
    by blast
  have "s' ! i = s ! i" if "i < length s" for i
    using nth_take [OF that, of s'] t by simp
  with assms c t r show ?thesis by simp
qed

theorem composite_images_leaves_background_witness:
  "\<exists>s' result. composite_images [transparent_RGBA, dot_image] 0 1 1 1 = Inr (s', result)
     \<and> s' ! 0 = transparent_RGBA \<and> s' ! 1 = dot_image
     \<and> take 2 s' = [transparent_RGBA, dot_image] \<and> 2 \<le> result \<and> result < length s'"
  using composite_images_leaves_background [of 0 "[transparent_RGBA, dot_image]" 1 1 1]
  by (simp add: numeral_2_eq_2)

subsection \<open>Floats\<close>

lemma round_half_even_bounds:
  "s - 1 / 2 \<le> of_int (round_half_even s)" "of_int (round_half_even s) \<le> s + 1 / 2"
  "\<lfloor>s\<rfloor> \<le> round_half_even s"
proof -
  have f: "of_int \<lfloor>s\<rfloor> \<le> s" "s < of_int \<lfloor>s\<rfloor> + 1" by linarith+
  show "s - 1 / 2 \<le> of_int (round_half_even s)"
    using f by (auto simp: round_half_even_def Let_def)
  have g: "of_int \<lfloor>s\<rfloor> \<le> s + 1 / 2" using f(1) by linarith
  show "of_int (round_half_even s) \<le> s + 1 / 2"
    using f g by (auto simp: round_half_even_def Let_def)
  show "\<lfloor>s\<rfloor> \<le> round_half_even s"
    by (auto simp: round_half_even_def Let_def)
qed

lemma ilog2_bounds:
  assumes "0 < x"
  shows "2 powi ilog2 x \<le> x" "x < 2 powi (ilog2 x + 1)"
proof -
  obtain p q where pq: "quotient_of x = (p, q)" by (cases "quotient_of x")
  then have q: "0 < q" and x: "x = of_int p / of_int q"
    by (simp_all add: quotient_of_denom_pos quotient_of_div)
  from assms x q have p: "0 < p" by (simp add: zero_less_divide_iff)
  let ?bp = "bitlen p" and ?bq = "bitlen q"
  from bitlen_bounds [OF p] have bp: "2 ^ nat (?bp - 1) \<le> p" "p < 2 ^ nat ?bp" by simp_all
  from bitlen_bounds [OF q] have bq: "2 ^ nat (?bq - 1) \<le> q" "q < 2 ^ nat ?bq" by simp_all
  have pos: "1 \<le> ?bp" "1 \<le> ?bq"
    using p q by (simp_all add: bitlen_alt_def)
  have "rat_of_int (2 ^ nat (?bp - 1)) \<le> of_int p"
    using bp(1) by (simp only: of_int_le_iff)
  then have P1: "(2::rat) powi (?bp - 1) \<le> of_int p"
    using pos by (simp add: power_int_nonneg_exp)
  have "rat_of_int p < of_int (2 ^ nat ?bp)"
    using bp(2) by (simp only: of_int_less_iff)
  then have P2: "of_int p < (2::rat) powi ?bp"
    using pos by (simp add: power_int_nonneg_exp)
  have "rat_of_int (2 ^ nat (?bq - 1)) \<le> of_int q"
    using bq(1) by (simp only: of_int_le_iff)
  then have Q1: "(2::rat) powi (?bq - 1) \<le> of_int q"
    using pos by (simp add: power_int_nonneg_exp)
  have "rat_of_int q < of_int (2 ^ nat ?bq)"
    using bq(2) by (simp only: of_int_less_iff)
  then have Q2: "of_int q < (2::rat) powi ?bq"
    using pos by (simp add: power_int_nonneg_exp)
  have pw: "(0::rat) < 2 powi k" for k by simp
  have "(2::rat) powi (?bp - 1) / 2 powi ?bq \<le> of_int p / of_int q"
    using P1 Q2 p q by (intro frac_le) simp_all
  then have lo: "(2::rat) powi (?bp - ?bq - 1) \<le> x"
    by (simp add: x power_int_diff)
  have "rat_of_int p / of_int q < 2 powi ?bp / 2 powi (?bq - 1)"
    using P2 Q1 p q by (intro frac_less) simp_all
  then have hi: "x < (2::rat) powi (?bp - ?bq + 1)"
    by (simp add: x power_int_diff power_int_add)
  show "2 powi ilog2 x \<le> x"
    using lo by (simp add: ilog2_def pq Let_def)
  show "x < 2 powi (ilog2 x + 1)"
    using hi by (auto simp: ilog2_def pq Let_def not_le)
qed


lemma fl_bounds:
  assumes "0 < x"
  shows "x * (1 - 1 / 2 ^ 53) \<le> fl x" "fl x \<le> x * (1 + 1 / 2 ^ 53)" "0 < fl x"
proof -
  define P :: rat where "P = 2 powi (ilog2 x - 52)"
  have P: "0 < P" by (simp add: P_def)
  have "P = 2 powi ilog2 x / 2 ^ 52"
    by (simp add: P_def power_int_diff)
  also have "\<dots> \<le> x / 2 ^ 52"
    using ilog2_bounds(1) [OF assms] by (simp add: divide_right_mono)
  finally have Px: "P / 2 \<le> x / 2 ^ 53" by simp
  have f: "fl x = of_int (round_half_even (x / P)) * P"
    using assms by (simp add: fl_def P_def Let_def)
  have "(x / P - 1 / 2) * P \<le> fl x"
    unfolding f using round_half_even_bounds(1) [of "x / P"] P
    by (intro mult_right_mono) simp_all
  then have lo: "x - P / 2 \<le> fl x" using P by (simp add: algebra_simps)
  have "fl x \<le> (x / P + 1 / 2) * P"
    unfolding f using round_half_even_bounds(2) [of "x / P"] P
    by (intro mult_right_mono) simp_all
  then have hi: "fl x \<le> x + P / 2" using P by (simp add: algebra_simps)
  show "x * (1 - 1 / 2 ^ 53) \<le> fl x" using lo Px by (simp add: algebra_simps)
  show "fl x \<le> x * (1 + 1 / 2 ^ 53)" using hi Px by (simp add: algebra_simps)
  have "0 < x * (1 - 1 / 2 ^ 53)" using assms by simp
  then show "0 < fl x" using lo Px by (simp add: algebra_simps)
qed


text \<open>The result of \<open>fl\<close> has a significand of 53 bits.\<close>

lemma fl_significand:
  assumes "0 < x"
  shows "\<exists>m e. fl x = of_int m * 2 powi e \<and> 2 ^ 52 \<le> m \<and> m \<le> 2 ^ 53"
proof -
  define P :: rat where "P = 2 powi (ilog2 x - 52)"
  have P: "0 < P" by (simp add: P_def)
  have f: "fl x = of_int (round_half_even (x / P)) * P"
    using assms by (simp add: fl_def P_def Let_def)
  have e: "P * 2 ^ 52 = 2 powi ilog2 x" "P * 2 ^ 53 = 2 powi (ilog2 x + 1)"
    by (simp_all add: P_def power_int_diff power_int_add)
  have "P * 2 ^ 52 \<le> x" "x < P * 2 ^ 53"
    unfolding e using ilog2_bounds [OF assms] by simp_all
  then have s: "2 ^ 52 \<le> x / P" "x / P < 2 ^ 53"
    using P by (simp_all add: pos_le_divide_eq pos_divide_less_eq mult.commute)
  from s(1) have "(2::int) ^ 52 \<le> \<lfloor>x / P\<rfloor>" by (simp add: le_floor_iff)
  then have lo: "2 ^ 52 \<le> round_half_even (x / P)"
    using round_half_even_bounds(3) [of "x / P"] by linarith
  have "rat_of_int (round_half_even (x / P)) < 2 ^ 53 + 1"
    using round_half_even_bounds(2) [of "x / P"] s(2) by linarith
  then have "rat_of_int (round_half_even (x / P)) < of_int (2 ^ 53 + 1)" by simp
  then have hi: "round_half_even (x / P) \<le> 2 ^ 53"
    by (simp only: of_int_less_iff)
  from f lo hi show ?thesis unfolding P_def by blast
qed

subsection \<open>crop\_and\_resize\_to\_target\<close>







text \<open>
  The scenarios of the specification: a background of 1920 by 1080 has the target's ratio
  and is resized directly; one of 1000 by 1000 is cropped to the rows 219 to 781 first.
\<close>

lemma scenario_ratios:
  "\<not> \<bar>fl (fl (1000 / 1000) - fl (1280 / 720))\<bar> < fl (1 / 1000)"
  "\<not> fl (1000 / 1000) > fl (1280 / 720)"
  "fl (1280 / 720) \<noteq> 0"
  "py_int (fl (fl 1000 / fl (1280 / 720))) = 562"
  by code_simp+

lemma crop_and_resize_to_target_same_ratio:
  "crop_and_resize_to_target (plain_image Mode_RGB (1920, 1080)) 1280 720 LANCZOS
     = resize (plain_image Mode_RGB (1920, 1080)) (1280, 720) LANCZOS"
  using fl_bounds(3) [of "1 / 1000"]
  by (simp add: crop_and_resize_to_target_def truediv_def plain_image_def float_sub_def
        fl_def [of 0])

lemma crop_and_resize_to_target_square:
  "crop_and_resize_to_target (plain_image Mode_RGB (1000, 1000)) 1280 720 LANCZOS
     = bind_result (crop (plain_image Mode_RGB (1000, 1000)) (0, 219, 1000, 781))
         (\<lambda>image1. resize image1 (1280, 720) LANCZOS)"
  using scenario_ratios
  by (simp add: crop_and_resize_to_target_def truediv_def plain_image_def float_sub_def
        int_truediv_float_def)


subsection \<open>resize\_object\_with\_height\<close>












end
